theory Spec2Isabelle
  imports Complex_Main "HOL-Library.Sublist"
begin

section \<open>Data model\<close>

text \<open>
  Values that reach \<open>calculations\<close>: text, or a number (anything without a
  \<open>split\<close> method). Python's \<open>str\<close> is modelled as a list of code points below 256.
\<close>

datatype pyobj = PyStr string | PyNum int

datatype error = ValueError | AttributeError

text \<open>
  \<open>wer = ld / m\<close> divides a NumPy \<open>int64\<close> scalar (an element of \<open>ldm\<close>) by a Python
  int. NumPy's true division of scalars yields a \<open>float64\<close> and, under NumPy's default
  error state, does not raise on a zero divisor: it gives \<open>nan\<close> for \<open>0 / 0\<close> and a signed
  infinity otherwise (a RuntimeWarning is emitted). Finite quotients are kept exact here
  (the \<open>float64\<close> is the rounding of that rational).
\<close>

datatype npfloat = Finite rat | PosInf | NegInf | NaN

definition true_divide :: "int \<Rightarrow> int \<Rightarrow> npfloat" where
  "true_divide a b =
     (if b = 0 then (if a = 0 then NaN else if 0 < a then PosInf else NegInf)
      else Finite (of_int a / of_int b))"

record edits =
  insertions :: nat
  deletions :: nat
  substitutions :: nat
  inserted_words :: "string list"
  deleted_words :: "string list"
  substituted_words :: "(string \<times> string) list"

text \<open>The loop variables \<open>i\<close>, \<open>j\<close> of the backtrace together with its accumulators.\<close>

record bt_state = edits +
  pos_i :: nat
  pos_j :: nat

text \<open>The nine-element array returned by \<open>calculations\<close>; \<open>ref_len\<close> is the source's \<open>m\<close>.\<close>

record edit_record = edits +
  wer :: npfloat
  ld :: int
  ref_len :: nat

section \<open>Tokenizer: \<open>str.split()\<close>\<close>

text \<open>The code points below 256 for which \<open>str.isspace\<close> holds.\<close>

definition is_space :: "char \<Rightarrow> bool" where
  "is_space c =
     (let k = (of_char c :: nat)
      in (9 \<le> k \<and> k \<le> 13) \<or> (28 \<le> k \<and> k \<le> 32) \<or> k = 133 \<or> k = 160)"

text \<open>\<open>cur\<close> is the word being read; runs of whitespace separate words and produce no
  empty word.\<close>

fun split_from :: "string \<Rightarrow> string \<Rightarrow> string list" where
  "split_from cur [] = (if cur = [] then [] else [cur])"
| "split_from cur (c # cs) =
     (if is_space c then (if cur = [] then split_from [] cs else cur # split_from [] cs)
      else split_from (cur @ [c]) cs)"

definition split :: "string \<Rightarrow> string list" where
  "split s = split_from [] s"

section \<open>The distance matrix of \<open>calculations\<close>\<close>

text \<open>\<open>ldm\<close> is a two-dimensional NumPy array of \<open>int64\<close>, modelled as a list of rows of
  integers (the entries stay below \<open>4 * (m + n)\<close>, far from the \<open>int64\<close> range). Every
  access of the source is in range.\<close>

type_synonym matrix = "int list list"

definition zeros :: "nat \<Rightarrow> nat \<Rightarrow> matrix" where
  "zeros rows cols = replicate rows (replicate cols 0)"

definition mset2 :: "matrix \<Rightarrow> nat \<Rightarrow> nat \<Rightarrow> int \<Rightarrow> matrix" where
  "mset2 ldm i j v = ldm[i := (ldm ! i)[j := v]]"

text \<open>The state of the three \<open>for\<close> loops is \<open>(i, j, ldm)\<close>: the loop variables survive the
  loops and are read by \<open>ld = ldm[i, j]\<close>.\<close>

type_synonym fill_state = "nat \<times> nat \<times> matrix"

text \<open>\<open>for i in range(m + 1): ldm[i, 0] = i\<close>\<close>

definition border_rows :: "nat \<Rightarrow> fill_state \<Rightarrow> fill_state" where
  "border_rows m s = fold (\<lambda>i' (i, j, ldm). (i', j, mset2 ldm i' 0 (int i'))) [0..<m + 1] s"

text \<open>\<open>for j in range(n + 1): ldm[0, j] = j\<close>\<close>

definition border_cols :: "nat \<Rightarrow> fill_state \<Rightarrow> fill_state" where
  "border_cols n s = fold (\<lambda>j' (i, j, ldm). (i, j', mset2 ldm 0 j' (int j'))) [0..<n + 1] s"

text \<open>The body of the inner loop, at \<open>i\<close>, \<open>j\<close>.\<close>

definition cell :: "string list \<Rightarrow> string list \<Rightarrow> matrix \<Rightarrow> nat \<Rightarrow> nat \<Rightarrow> int" where
  "cell reference_word hypothesis_word ldm i j =
     (if reference_word ! (i - 1) = hypothesis_word ! (j - 1) then ldm ! (i - 1) ! (j - 1)
      else (let substitution = ldm ! (i - 1) ! (j - 1) + 4;
                insertion = ldm ! i ! (j - 1) + 3;
                deletion = ldm ! (i - 1) ! j + 3
            in min substitution (min insertion deletion)))"

text \<open>\<open>for j in range(1, n + 1): ...\<close> at a fixed \<open>i\<close>\<close>

definition fill_row :: "string list \<Rightarrow> string list \<Rightarrow> nat \<Rightarrow> fill_state \<Rightarrow> fill_state" where
  "fill_row reference_word hypothesis_word n s =
     fold (\<lambda>j' (i, j, ldm). (i, j', mset2 ldm i j' (cell reference_word hypothesis_word ldm i j')))
       [1..<n + 1] s"

text \<open>\<open>for i in range(1, m + 1): for j in range(1, n + 1): ...\<close>\<close>

definition fill :: "string list \<Rightarrow> string list \<Rightarrow> nat \<Rightarrow> nat \<Rightarrow> fill_state \<Rightarrow> fill_state" where
  "fill reference_word hypothesis_word m n s =
     fold (\<lambda>i' (i, j, ldm). fill_row reference_word hypothesis_word n (i', j, ldm)) [1..<m + 1] s"

text \<open>Lines 48 to 66: the state after the border loops and the fill.\<close>

definition build :: "string list \<Rightarrow> string list \<Rightarrow> fill_state" where
  "build reference_word hypothesis_word =
     (let m = length reference_word; n = length hypothesis_word
      in fill reference_word hypothesis_word m n
           (border_cols n (border_rows m (0, 0, zeros (m + 1) (n + 1)))))"

section \<open>The backtrace of \<open>calculations\<close>\<close>

text \<open>One iteration of the \<open>while\<close> loop. When no branch of the \<open>if\<close>/\<open>elif\<close> chain
  applies the source changes nothing, and the state is returned as it is.\<close>

definition bt_body :: "string list \<Rightarrow> string list \<Rightarrow> matrix \<Rightarrow> bt_state \<Rightarrow> bt_state" where
  "bt_body reference_word hypothesis_word ldm s =
     (let i = pos_i s; j = pos_j s in
      if 0 < i \<and> 0 < j \<and> reference_word ! (i - 1) = hypothesis_word ! (j - 1)
      then s\<lparr>pos_i := i - 1, pos_j := j - 1\<rparr>
      else if 0 < i \<and> 0 < j \<and> ldm ! i ! j = ldm ! (i - 1) ! (j - 1) + 1
      then s\<lparr>substitutions := substitutions s + 1,
             substituted_words := substituted_words s
                @ [(reference_word ! (i - 1), hypothesis_word ! (j - 1))],
             pos_i := i - 1, pos_j := j - 1\<rparr>
      else if 0 < j \<and> ldm ! i ! j = ldm ! i ! (j - 1) + 1
      then s\<lparr>insertions := insertions s + 1,
             inserted_words := inserted_words s @ [hypothesis_word ! (j - 1)],
             pos_j := j - 1\<rparr>
      else if 0 < i \<and> ldm ! i ! j = ldm ! (i - 1) ! j + 1
      then s\<lparr>deletions := deletions s + 1,
             deleted_words := deleted_words s @ [reference_word ! (i - 1)],
             pos_i := i - 1\<rparr>
      else s)"

text \<open>\<open>while i > 0 or j > 0: ...\<close>; \<open>None\<close> is a loop that never ends.\<close>

partial_function (option) bt_loop ::
  "string list \<Rightarrow> string list \<Rightarrow> matrix \<Rightarrow> bt_state \<Rightarrow> bt_state option" where
  "bt_loop reference_word hypothesis_word ldm s =
     (if 0 < pos_i s \<or> 0 < pos_j s
      then bt_loop reference_word hypothesis_word ldm (bt_body reference_word hypothesis_word ldm s)
      else Some s)"

declare bt_loop.simps [code]

definition bt_init :: "nat \<Rightarrow> nat \<Rightarrow> bt_state" where
  "bt_init m n =
     \<lparr>insertions = 0, deletions = 0, substitutions = 0,
      inserted_words = [], deleted_words = [], substituted_words = [],
      pos_i = m, pos_j = n\<rparr>"

section \<open>\<open>calculations\<close>\<close>

text \<open>Lines 48 to 97, on the two word lists.\<close>

definition calc_words :: "string list \<Rightarrow> string list \<Rightarrow> edit_record option" where
  "calc_words reference_word hypothesis_word =
     (let m = length reference_word; n = length hypothesis_word;
          (i, j, ldm) = build reference_word hypothesis_word;
          ld = ldm ! i ! j;
          wer = true_divide ld (int m)
      in case bt_loop reference_word hypothesis_word ldm (bt_init m n) of
           None \<Rightarrow> None
         | Some s \<Rightarrow>
             Some \<lparr>insertions = insertions s, deletions = deletions s,
                   substitutions = substitutions s,
                   inserted_words = rev (inserted_words s),
                   deleted_words = rev (deleted_words s),
                   substituted_words = rev (substituted_words s),
                   wer = wer, ld = ld, ref_len = m\<rparr>)"

text \<open>\<open>reference.split()\<close> and \<open>hypothesis.split()\<close> raise AttributeError on a value that
  is not text. The outer \<open>None\<close> is a call that never returns.\<close>

fun calculations :: "pyobj \<Rightarrow> pyobj \<Rightarrow> (error + edit_record) option" where
  "calculations (PyStr reference) (PyStr hypothesis) =
     map_option Inr (calc_words (split reference) (split hypothesis))"
| "calculations _ _ = Some (Inl AttributeError)"

section \<open>\<open>metrics\<close>: \<open>np.vectorize(calculations)\<close>\<close>

text \<open>
  An argument of \<open>metrics\<close> and \<open>wers\<close> is a single value or a one-level collection
  of strings. \<open>np.vectorize\<close> without \<open>otypes\<close> works in three steps:
  \<^enum> an argument of size 0 raises ValueError;
  \<^enum> the function is called once on the first entries of \<open>asarray(arg)\<close>, to find the
    type of the output. For text, \<open>asarray\<close> builds an array of fixed-width strings, and
    reading an entry of such an array drops the NUL characters at its end: this one call
    sees the first strings without their trailing NULs;
  \<^enum> the arguments, now as arrays of the Python objects themselves, are broadcast
    against each other (a scalar or a collection of length 1 is repeated; other unequal
    lengths raise ValueError) and the function is called on each pair in order.

  One behaviour of \<open>np.vectorize\<close> depends on the NumPy release, and is a parameter of
  the model: for two scalar arguments, NumPy up to 2.2 returns the function's own result
  (here the nine-element array), NumPy from 2.3 on returns it wrapped in a 0-dimensional
  object array.
\<close>

datatype numpy = Upto_2_2 | From_2_3

datatype arg = Scalar pyobj | Coll "string list"

text \<open>The result of \<open>metrics\<close>: the nine-element array itself, a 0-dimensional array that
  holds it, or a one-dimensional array of such arrays.\<close>

datatype batch = Single edit_record | ZeroDim edit_record | Batch "edit_record list"

fun entries :: "arg \<Rightarrow> pyobj list" where
  "entries (Scalar x) = [x]"
| "entries (Coll xs) = map PyStr xs"

definition strip_nul :: "string \<Rightarrow> string" where
  "strip_nul s = rev (dropWhile (\<lambda>c. c = CHR 0x00) (rev s))"

text \<open>An entry as the first call reads it from \<open>asarray(arg)\<close>.\<close>

fun flat_entry :: "pyobj \<Rightarrow> pyobj" where
  "flat_entry (PyStr s) = PyStr (strip_nul s)"
| "flat_entry (PyNum k) = PyNum k"

text \<open>The calls in order; the first one that raises or does not return decides.\<close>

fun vec_loop :: "(pyobj \<times> pyobj) list \<Rightarrow> (error + edit_record list) option" where
  "vec_loop [] = Some (Inr [])"
| "vec_loop ((x, y) # ps) =
     (case calculations x y of
        None \<Rightarrow> None
      | Some (Inl e) \<Rightarrow> Some (Inl e)
      | Some (Inr v) \<Rightarrow>
          (case vec_loop ps of
             None \<Rightarrow> None
           | Some (Inl e) \<Rightarrow> Some (Inl e)
           | Some (Inr vs) \<Rightarrow> Some (Inr (v # vs))))"

fun ufunc_call :: "numpy \<Rightarrow> arg \<Rightarrow> arg \<Rightarrow> (error + batch) option" where
  "ufunc_call np (Scalar x) (Scalar y) =
     map_option (map_sum id (case np of Upto_2_2 \<Rightarrow> Single | From_2_3 \<Rightarrow> ZeroDim))
       (calculations x y)"
| "ufunc_call np (Scalar x) (Coll ys) =
     map_option (map_sum id Batch) (vec_loop (map (\<lambda>y. (x, PyStr y)) ys))"
| "ufunc_call np (Coll xs) (Scalar y) =
     map_option (map_sum id Batch) (vec_loop (map (\<lambda>x. (PyStr x, y)) xs))"
| "ufunc_call np (Coll xs) (Coll ys) =
     (if length xs = length ys
      then map_option (map_sum id Batch) (vec_loop (zip (map PyStr xs) (map PyStr ys)))
      else if length xs = 1
      then map_option (map_sum id Batch) (vec_loop (map (\<lambda>y. (PyStr (hd xs), PyStr y)) ys))
      else if length ys = 1
      then map_option (map_sum id Batch) (vec_loop (map (\<lambda>x. (PyStr x, PyStr (hd ys))) xs))
      else Some (Inl ValueError))"

definition metrics :: "numpy \<Rightarrow> arg \<Rightarrow> arg \<Rightarrow> (error + batch) option" where
  "metrics np reference hypothesis =
     (if entries reference = [] \<or> entries hypothesis = [] then Some (Inl ValueError)
      else case calculations (flat_entry (hd (entries reference)))
                  (flat_entry (hd (entries hypothesis))) of
             None \<Rightarrow> None
           | Some (Inl e) \<Rightarrow> Some (Inl e)
           | Some (Inr _) \<Rightarrow> ufunc_call np reference hypothesis)"

section \<open>\<open>wers\<close>\<close>

text \<open>What \<open>wers\<close> returns: a float for a pair of strings, a list of floats for
  collections. A call of \<open>wers\<close> that ends either raises or returns: \<open>Inr\<close> holds the lines
  it printed and its return value, \<open>None\<close> being Python's \<open>None\<close> (the \<open>except\<close> branches fall
  off the end of the function).

  The \<open>else\<close> block starts with \<open>word_error_rate_breakdown[0]\<close>. On a 0-dimensional array
  this index raises IndexError, which no \<open>except\<close> clause of \<open>wers\<close> catches.\<close>

datatype wers_result = WerScalar npfloat | WerList "npfloat list"

datatype wers_error = IndexError

definition wers ::
  "numpy \<Rightarrow> arg \<Rightarrow> arg \<Rightarrow> (wers_error + string list \<times> wers_result option) option" where
  "wers np reference hypothesis =
     (case metrics np reference hypothesis of
        None \<Rightarrow> None
      | Some (Inl ValueError) \<Rightarrow>
          Some (Inr ([''ValueError: The Reference and Hypothesis input parameters must have the same number of elements.''],
                     None))
      | Some (Inl AttributeError) \<Rightarrow>
          Some (Inr ([''AttributeError: All text should be in a string format. Please check your input does not include any Numeric data types.''],
                     None))
      | Some (Inr (Single word_error_rate_breakdown)) \<Rightarrow>
          Some (Inr ([], Some (WerScalar (wer word_error_rate_breakdown))))
      | Some (Inr (ZeroDim word_error_rate_breakdown)) \<Rightarrow> Some (Inl IndexError)
      | Some (Inr (Batch word_error_rate_breakdown)) \<Rightarrow>
          Some (Inr ([], Some (WerList (map wer word_error_rate_breakdown)))))"

section \<open>The matrix of the specification\<close>

text \<open>The recurrence as the specification words it (border \<open>D[i][0] = i\<close>, \<open>D[0][j] = j\<close>;
  inner cells by match or the minimum of the three weighted neighbours), to be compared
  with the matrix that \<open>build\<close> computes.\<close>

fun D_spec :: "string list \<Rightarrow> string list \<Rightarrow> nat \<Rightarrow> nat \<Rightarrow> int" where
  "D_spec r h i 0 = int i"
| "D_spec r h 0 j = int j"
| "D_spec r h (Suc i) (Suc j) =
     (if r ! i = h ! j then D_spec r h i j
      else min (D_spec r h i j + 4) (min (D_spec r h (Suc i) j + 3) (D_spec r h i (Suc j) + 3)))"

text \<open>\<open>ldm\<close> has \<open>m + 1\<close> rows of \<open>n + 1\<close> entries and holds the specification's value in
  every cell of the region \<open>R\<close>.\<close>

definition agrees ::
  "string list \<Rightarrow> string list \<Rightarrow> nat \<Rightarrow> nat \<Rightarrow> matrix \<Rightarrow> (nat \<Rightarrow> nat \<Rightarrow> bool) \<Rightarrow> bool" where
  "agrees r h m n ldm R \<longleftrightarrow>
     length ldm = Suc m \<and> (\<forall>i\<le>m. length (ldm ! i) = Suc n) \<and>
     (\<forall>i\<le>m. \<forall>j\<le>n. R i j \<longrightarrow> ldm ! i ! j = D_spec r h i j)"

text \<open>What the backtrace adds between a state \<open>s\<close> and a later state \<open>t\<close>: the words
  at positions \<open>js\<close> of the hypothesis, \<open>ds\<close> of the reference and the pairs at positions
  \<open>ps\<close>, each visited from right to left, below the position of \<open>s\<close>; the counters grow by
  the number of words added.\<close>

definition bt_extends :: "string list \<Rightarrow> string list \<Rightarrow> bt_state \<Rightarrow> bt_state \<Rightarrow> bool" where
  "bt_extends r h s t \<longleftrightarrow>
     (\<exists>js ds ps.
        inserted_words t = inserted_words s @ map ((!) h) js \<and>
        insertions t = insertions s + length js \<and>
        sorted_wrt (>) js \<and> list_all (\<lambda>p. p < pos_j s) js \<and>
        deleted_words t = deleted_words s @ map ((!) r) ds \<and>
        deletions t = deletions s + length ds \<and>
        sorted_wrt (>) ds \<and> list_all (\<lambda>p. p < pos_i s) ds \<and>
        substituted_words t = substituted_words s @ map (\<lambda>(a, b). (r ! a, h ! b)) ps \<and>
        substitutions t = substitutions s + length ps \<and>
        sorted_wrt (>) (map fst ps) \<and> sorted_wrt (>) (map snd ps) \<and>
        list_all (\<lambda>(a, b). a < pos_i s \<and> b < pos_j s) ps)"

section \<open>The matrix construction computes the specified matrix\<close>

lemma D_spec_zero_left [simp]: "D_spec r h 0 j = int j"
  by (cases j) simp_all

lemma mset2_length [simp]: "length (mset2 ldm i j v) = length ldm"
  by (simp add: mset2_def)

lemma mset2_row_length [simp]: "length (mset2 ldm i j v ! k) = length (ldm ! k)"
  by (cases "i < length ldm"; cases "k = i") (simp_all add: mset2_def list_update_beyond)

lemma mset2_nth:
  "i < length ldm \<Longrightarrow> j < length (ldm ! i) \<Longrightarrow>
   mset2 ldm i j v ! a ! b = (if a = i \<and> b = j then v else ldm ! a ! b)"
  by (cases "a = i"; cases "b = j") (simp_all add: mset2_def)

lemma agrees_update:
  assumes "agrees r h m n ldm R" and "i \<le> m" and "j \<le> n" and "v = D_spec r h i j"
    and "\<And>a b. a \<le> m \<Longrightarrow> b \<le> n \<Longrightarrow> R' a b \<Longrightarrow> R a b \<or> (a = i \<and> b = j)"
  shows "agrees r h m n (mset2 ldm i j v) R'"
  unfolding agrees_def
proof (intro conjI allI impI)
  show "length (mset2 ldm i j v) = Suc m"
    using assms(1) by (simp add: agrees_def)
  show "length (mset2 ldm i j v ! a) = Suc n" if "a \<le> m" for a
    using assms(1) that by (simp add: agrees_def)
  show "mset2 ldm i j v ! a ! b = D_spec r h a b" if "a \<le> m" "b \<le> n" "R' a b" for a b
  proof -
    have "i < length ldm" "j < length (ldm ! i)"
      using assms(1-3) by (simp_all add: agrees_def)
    then have "mset2 ldm i j v ! a ! b = (if a = i \<and> b = j then v else ldm ! a ! b)"
      by (rule mset2_nth)
    moreover have "R a b \<or> (a = i \<and> b = j)"
      using assms(5) that by blast
    ultimately show ?thesis
      using assms(1,4) that by (auto simp: agrees_def)
  qed
qed

lemma agrees_zeros: "agrees r h m n (zeros (Suc m) (Suc n)) (\<lambda>_ _. False)"
  by (simp add: agrees_def zeros_def less_Suc_eq_le del: replicate_Suc)

lemma agrees_weaken:
  "agrees r h m n ldm R \<Longrightarrow> (\<And>a b. a \<le> m \<Longrightarrow> b \<le> n \<Longrightarrow> R' a b \<Longrightarrow> R a b) \<Longrightarrow>
   agrees r h m n ldm R'"
  by (auto simp: agrees_def)

lemma border_rows_aux:
  "k \<le> Suc m \<Longrightarrow> agrees r h m n ldm R \<Longrightarrow>
   \<exists>ldm'. fold (\<lambda>i' (i, j, ldm). (i', j, mset2 ldm i' 0 (int i'))) [0..<k] (ia, ja, ldm)
           = (if k = 0 then ia else k - 1, ja, ldm')
         \<and> agrees r h m n ldm' (\<lambda>a b. R a b \<or> (b = 0 \<and> a < k))"
proof (induction k)
  case 0
  then show ?case by (auto elim: agrees_weaken)
next
  case (Suc k)
  then obtain ldm' where f: "fold (\<lambda>i' (i, j, ldm). (i', j, mset2 ldm i' 0 (int i'))) [0..<k] (ia, ja, ldm)
           = (if k = 0 then ia else k - 1, ja, ldm')"
    and a: "agrees r h m n ldm' (\<lambda>a b. R a b \<or> (b = 0 \<and> a < k))" by auto
  have "agrees r h m n (mset2 ldm' k 0 (int k)) (\<lambda>a b. R a b \<or> (b = 0 \<and> a < Suc k))"
    using a Suc.prems(1) by (rule_tac agrees_update[OF a]) (auto simp: less_Suc_eq)
  then show ?case using f by simp
qed

lemma border_cols_aux:
  "k \<le> Suc n \<Longrightarrow> agrees r h m n ldm R \<Longrightarrow>
   \<exists>ldm'. fold (\<lambda>j' (i, j, ldm). (i, j', mset2 ldm 0 j' (int j'))) [0..<k] (ia, ja, ldm)
           = (ia, if k = 0 then ja else k - 1, ldm')
         \<and> agrees r h m n ldm' (\<lambda>a b. R a b \<or> (a = 0 \<and> b < k))"
proof (induction k)
  case 0
  then show ?case by (auto elim: agrees_weaken)
next
  case (Suc k)
  then obtain ldm' where f: "fold (\<lambda>j' (i, j, ldm). (i, j', mset2 ldm 0 j' (int j'))) [0..<k] (ia, ja, ldm)
           = (ia, if k = 0 then ja else k - 1, ldm')"
    and a: "agrees r h m n ldm' (\<lambda>a b. R a b \<or> (a = 0 \<and> b < k))" by auto
  have "agrees r h m n (mset2 ldm' 0 k (int k)) (\<lambda>a b. R a b \<or> (a = 0 \<and> b < Suc k))"
    using a Suc.prems(1) by (rule_tac agrees_update[OF a]) (auto simp: less_Suc_eq)
  then show ?case using f by simp
qed

lemma cell_D_spec:
  assumes "agrees r h m n ldm R" and "0 < i" and "i \<le> m" and "0 < j" and "j \<le> n"
    and "R (i - 1) (j - 1)" and "R i (j - 1)" and "R (i - 1) j"
  shows "cell r h ldm i j = D_spec r h i j"
proof -
  obtain i' j' where ij: "i = Suc i'" "j = Suc j'"
    using assms(2,4) by (cases i; cases j) auto
  have "ldm ! i' ! j' = D_spec r h i' j'" "ldm ! Suc i' ! j' = D_spec r h (Suc i') j'"
    "ldm ! i' ! Suc j' = D_spec r h i' (Suc j')"
    using assms unfolding agrees_def ij by auto
  then show ?thesis by (simp add: cell_def ij)
qed

lemma fill_row_aux:
  assumes "0 < i" and "i \<le> m"
  shows "k \<le> n \<Longrightarrow> agrees r h m n ldm (\<lambda>a b. a < i \<or> b = 0) \<Longrightarrow>
   \<exists>ldm'. fold (\<lambda>j' (i, j, ldm). (i, j', mset2 ldm i j' (cell r h ldm i j'))) [1..<Suc k] (i, ja, ldm)
           = (i, if k = 0 then ja else k, ldm')
         \<and> agrees r h m n ldm' (\<lambda>a b. a < i \<or> b = 0 \<or> (a = i \<and> b \<le> k))"
proof (induction k)
  case 0
  then show ?case by (auto elim: agrees_weaken)
next
  case (Suc k)
  let ?f = "(\<lambda>j' (i, j, ldm). (i, j', mset2 ldm i j' (cell r h ldm i j')))"
  from Suc obtain ldm' where f: "fold ?f [1..<Suc k] (i, ja, ldm) = (i, if k = 0 then ja else k, ldm')"
    and a: "agrees r h m n ldm' (\<lambda>a b. a < i \<or> b = 0 \<or> (a = i \<and> b \<le> k))" by auto
  have c: "cell r h ldm' i (Suc k) = D_spec r h i (Suc k)"
    using assms Suc.prems(1) by (intro cell_D_spec[OF a]) auto
  have "agrees r h m n (mset2 ldm' i (Suc k) (cell r h ldm' i (Suc k)))
          (\<lambda>a b. a < i \<or> b = 0 \<or> (a = i \<and> b \<le> Suc k))"
    using assms Suc.prems(1) c by (intro agrees_update[OF a]) (auto simp: le_Suc_eq)
  then show ?case using f by simp
qed

lemma fill_aux:
  "k \<le> m \<Longrightarrow> agrees r h m n ldm (\<lambda>a b. a = 0 \<or> b = 0) \<Longrightarrow>
   \<exists>ldm'. fold (\<lambda>i' (i, j, ldm). fill_row r h n (i', j, ldm)) [1..<Suc k] (ia, n, ldm)
           = (if k = 0 then ia else k, n, ldm')
         \<and> agrees r h m n ldm' (\<lambda>a b. a \<le> k \<or> b = 0)"
proof (induction k)
  case 0
  then show ?case by (auto elim: agrees_weaken)
next
  case (Suc k)
  let ?f = "(\<lambda>i' (i, j, ldm). fill_row r h n (i', j, ldm))"
  obtain ldm' where f: "fold ?f [1..<Suc k] (ia, n, ldm) = (if k = 0 then ia else k, n, ldm')"
    and a: "agrees r h m n ldm' (\<lambda>a b. a \<le> k \<or> b = 0)"
    using Suc.IH[OF Suc_leD[OF Suc.prems(1)] Suc.prems(2)] by blast
  have a': "agrees r h m n ldm' (\<lambda>a b. a < Suc k \<or> b = 0)"
    using a by (rule agrees_weaken) auto
  obtain ldm'' where g: "fill_row r h n (Suc k, n, ldm') = (Suc k, if n = 0 then n else n, ldm'')"
    and b: "agrees r h m n ldm'' (\<lambda>a b. a < Suc k \<or> b = 0 \<or> (a = Suc k \<and> b \<le> n))"
    using fill_row_aux[OF _ Suc.prems(1) le_refl a', of n] unfolding fill_row_def by auto
  have ag: "agrees r h m n ldm'' (\<lambda>a b. a \<le> Suc k \<or> b = 0)"
    using b by (rule agrees_weaken) auto
  have "fold ?f [1..<Suc (Suc k)] (ia, n, ldm) = ?f (Suc k) (fold ?f [1..<Suc k] (ia, n, ldm))"
    by simp
  then have "fold ?f [1..<Suc (Suc k)] (ia, n, ldm) = (Suc k, n, ldm'')"
    unfolding f using g by (simp del: upt_Suc)
  moreover have "(if Suc k = 0 then ia else Suc k) = Suc k"
    by simp
  ultimately have "fold ?f [1..<Suc (Suc k)] (ia, n, ldm) = (if Suc k = 0 then ia else Suc k, n, ldm'')"
    by (simp only:)
  then show ?case using ag by (rule_tac x = "ldm''" in exI) (rule conjI)
qed

lemma build_agrees:
  "\<exists>ldm. build r h = (length r, length h, ldm) \<and> agrees r h (length r) (length h) ldm (\<lambda>_ _. True)"
proof -
  let ?m = "length r" and ?n = "length h"
  obtain l1 where 1: "border_rows ?m (0, 0, zeros (?m + 1) (?n + 1)) = (?m, 0, l1)"
    and a1: "agrees r h ?m ?n l1 (\<lambda>a b. False \<or> (b = 0 \<and> a < Suc ?m))"
    using border_rows_aux[OF le_refl agrees_zeros, where ia=0 and ja=0 and r=r and h=h and n="?n" and m="?m"]
    unfolding border_rows_def by auto
  obtain l2 where 2: "border_cols ?n (?m, 0, l1) = (?m, ?n, l2)"
    and a2: "agrees r h ?m ?n l2 (\<lambda>a b. (False \<or> (b = 0 \<and> a < Suc ?m)) \<or> (a = 0 \<and> b < Suc ?n))"
    using border_cols_aux[OF le_refl a1, where ia="?m" and ja=0]
    unfolding border_cols_def by auto
  have a2': "agrees r h ?m ?n l2 (\<lambda>a b. a = 0 \<or> b = 0)"
    unfolding agrees_def
  proof (intro conjI allI impI)
    show "length l2 = Suc ?m" using a2 by (simp add: agrees_def)
    show "\<And>i. i \<le> ?m \<Longrightarrow> length (l2 ! i) = Suc ?n" using a2 by (simp add: agrees_def)
    show "\<And>i j. i \<le> ?m \<Longrightarrow> j \<le> ?n \<Longrightarrow> i = 0 \<or> j = 0 \<Longrightarrow> l2 ! i ! j = D_spec r h i j"
      using a2 unfolding agrees_def by (metis le_imp_less_Suc)
  qed
  obtain l3 where 3: "fill r h ?m ?n (?m, ?n, l2) = (?m, ?n, l3)"
    and a3: "agrees r h ?m ?n l3 (\<lambda>a b. a \<le> ?m \<or> b = 0)"
    using fill_aux[OF le_refl a2', of ?m] unfolding fill_def by (auto split: if_splits)
  have "agrees r h ?m ?n l3 (\<lambda>_ _. True)"
    using a3 by (auto simp: agrees_def)
  then show ?thesis using 1 2 3 by (simp add: build_def Let_def)
qed

section \<open>The backtrace loop\<close>

text \<open>A state in which the loop guard holds and the body changes nothing is never left.\<close>

lemma bt_stuck_aux:
  assumes "bt_loop r h ldm s = Some t"
  shows "\<not> ((0 < pos_i s \<or> 0 < pos_j s) \<and> bt_body r h ldm s = s)"
proof (rule bt_loop.raw_induct[OF _ assms], goal_cases)
  case (1 f r h ldm s t)
  show ?case
  proof
    assume st: "(0 < pos_i s \<or> 0 < pos_j s) \<and> bt_body r h ldm s = s"
    with 1(2) have "f r h ldm s = Some t" by simp
    from 1(1)[OF this] st show False by simp
  qed
qed

lemma bt_stuck:
  assumes "0 < pos_i s \<or> 0 < pos_j s" and "bt_body r h ldm s = s"
  shows "bt_loop r h ldm s = None"
  using bt_stuck_aux[of r h ldm s] assms by (cases "bt_loop r h ldm s") auto

text \<open>Whatever the loop returns extends the lists of the state it started from, by words
  taken at decreasing positions.\<close>

lemma bt_extends_refl: "bt_extends r h s s"
  unfolding bt_extends_def
  by (rule exI[of _ "[]"], rule exI[of _ "[]"], rule exI[of _ "[]"]) simp

lemma list_all_less_mono: "list_all (\<lambda>p. p < (a::nat)) xs \<Longrightarrow> a \<le> b \<Longrightarrow> list_all (\<lambda>p. p < b) xs"
  by (induction xs) auto

lemma list_all_pair_mono:
  "list_all (\<lambda>(x, y). x < (a::nat) \<and> y < (b::nat)) ps \<Longrightarrow> a \<le> a' \<Longrightarrow> b \<le> b' \<Longrightarrow>
   list_all (\<lambda>(x, y). x < a' \<and> y < b') ps"
  by (induction ps) auto

text \<open>The loop body takes one of five branches: a match, a substitution, an insertion,
  a deletion, or none of them.\<close>

lemma bt_body_cases:
  obtains
    (match) "0 < pos_i s" "0 < pos_j s" "bt_body r h ldm s = s\<lparr>pos_i := pos_i s - 1, pos_j := pos_j s - 1\<rparr>"
  | (subst) "0 < pos_i s" "0 < pos_j s" "bt_body r h ldm s =
        s\<lparr>substitutions := substitutions s + 1,
          substituted_words := substituted_words s @ [(r ! (pos_i s - 1), h ! (pos_j s - 1))],
          pos_i := pos_i s - 1, pos_j := pos_j s - 1\<rparr>"
  | (ins) "0 < pos_j s" "bt_body r h ldm s =
        s\<lparr>insertions := insertions s + 1,
          inserted_words := inserted_words s @ [h ! (pos_j s - 1)], pos_j := pos_j s - 1\<rparr>"
  | (del) "0 < pos_i s" "bt_body r h ldm s =
        s\<lparr>deletions := deletions s + 1,
          deleted_words := deleted_words s @ [r ! (pos_i s - 1)], pos_i := pos_i s - 1\<rparr>"
  | (stuck) "bt_body r h ldm s = s"
proof -
  let ?i = "pos_i s" and ?j = "pos_j s"
  let ?c1 = "0 < ?i \<and> 0 < ?j \<and> r ! (?i - 1) = h ! (?j - 1)"
  let ?c2 = "0 < ?i \<and> 0 < ?j \<and> ldm ! ?i ! ?j = ldm ! (?i - 1) ! (?j - 1) + 1"
  let ?c3 = "0 < ?j \<and> ldm ! ?i ! ?j = ldm ! ?i ! (?j - 1) + 1"
  let ?c4 = "0 < ?i \<and> ldm ! ?i ! ?j = ldm ! (?i - 1) ! ?j + 1"
  let ?A = "s\<lparr>pos_i := ?i - 1, pos_j := ?j - 1\<rparr>"
  let ?B = "s\<lparr>substitutions := substitutions s + 1,
          substituted_words := substituted_words s @ [(r ! (?i - 1), h ! (?j - 1))],
          pos_i := ?i - 1, pos_j := ?j - 1\<rparr>"
  let ?C = "s\<lparr>insertions := insertions s + 1,
            inserted_words := inserted_words s @ [h ! (?j - 1)], pos_j := ?j - 1\<rparr>"
  let ?D = "s\<lparr>deletions := deletions s + 1,
              deleted_words := deleted_words s @ [r ! (?i - 1)], pos_i := ?i - 1\<rparr>"
  have e0: "bt_body r h ldm s =
      (if ?c1 then ?A else if ?c2 then ?B else if ?c3 then ?C else if ?c4 then ?D else s)"
    unfolding bt_body_def Let_def by (rule refl)
  show thesis
  proof (cases ?c1)
    case True
    have "bt_body r h ldm s = ?A"
      unfolding e0 using True by (rule if_P)
    with True show thesis by (intro match) blast+
  next
    case n1: False
    have e1: "bt_body r h ldm s = (if ?c2 then ?B else if ?c3 then ?C else if ?c4 then ?D else s)"
      unfolding e0 using n1 by (rule if_not_P)
    show thesis
    proof (cases ?c2)
      case True
      have "bt_body r h ldm s = ?B"
        unfolding e1 using True by (rule if_P)
      with True show thesis by (intro subst) blast+
    next
      case n2: False
      have e2: "bt_body r h ldm s = (if ?c3 then ?C else if ?c4 then ?D else s)"
        unfolding e1 using n2 by (rule if_not_P)
      show thesis
      proof (cases ?c3)
        case True
        have "bt_body r h ldm s = ?C"
          unfolding e2 using True by (rule if_P)
        with True show thesis by (intro ins) blast+
      next
        case n3: False
        have e3: "bt_body r h ldm s = (if ?c4 then ?D else s)"
          unfolding e2 using n3 by (rule if_not_P)
        show thesis
        proof (cases ?c4)
          case True
          have "bt_body r h ldm s = ?D"
            unfolding e3 using True by (rule if_P)
          with True show thesis by (intro del) blast+
        next
          case False
          have "bt_body r h ldm s = s"
            unfolding e3 using False by (rule if_not_P)
          then show thesis by (rule stuck)
        qed
      qed
    qed
  qed
qed


lemma bt_extends_body:
  assumes "bt_extends r h (bt_body r h ldm s) t"
  shows "bt_extends r h s t"
proof -
  let ?i = "pos_i s" and ?j = "pos_j s"
  let ?s' = "bt_body r h ldm s"
  from assms obtain js ds ps where
    I: "inserted_words t = inserted_words ?s' @ map ((!) h) js"
       "insertions t = insertions ?s' + length js"
       "sorted_wrt (>) js" "list_all (\<lambda>p. p < pos_j ?s') js"
    and D: "deleted_words t = deleted_words ?s' @ map ((!) r) ds"
       "deletions t = deletions ?s' + length ds"
       "sorted_wrt (>) ds" "list_all (\<lambda>p. p < pos_i ?s') ds"
    and S: "substituted_words t = substituted_words ?s' @ map (\<lambda>(a, b). (r ! a, h ! b)) ps"
       "substitutions t = substitutions ?s' + length ps"
       "sorted_wrt (>) (map fst ps)" "sorted_wrt (>) (map snd ps)"
       "list_all (\<lambda>(a, b). a < pos_i ?s' \<and> b < pos_j ?s') ps"
    unfolding bt_extends_def by blast
  show ?thesis
  proof (cases rule: bt_body_cases[where s = s and r = r and h = h and ldm = ldm])
    case match
    have "list_all (\<lambda>p. p < ?j) js" "list_all (\<lambda>p. p < ?i) ds"
      "list_all (\<lambda>(a, b). a < ?i \<and> b < ?j) ps"
      using I(4) D(4) S(5) unfolding match(3)
      by (auto elim: list_all_less_mono list_all_pair_mono)
    then show ?thesis
      unfolding bt_extends_def
      using I(1-3) D(1-3) S(1-4) unfolding match(3)
      by (intro exI[of _ js] exI[of _ ds] exI[of _ ps]) simp
  next
    case subst
    have b: "list_all (\<lambda>p. p < ?j) js" "list_all (\<lambda>p. p < ?i) ds"
      "list_all (\<lambda>(a, b). a < ?i \<and> b < ?j) ((?i - 1, ?j - 1) # ps)"
      using I(4) D(4) S(5) subst(1,2) unfolding subst(3)
      by (auto elim: list_all_less_mono list_all_pair_mono)
    have "sorted_wrt (>) (map fst ((?i - 1, ?j - 1) # ps))" "sorted_wrt (>) (map snd ((?i - 1, ?j - 1) # ps))"
      using S(3,4,5) unfolding subst(3)
      by (auto simp: list_all_iff)
    then show ?thesis
      unfolding bt_extends_def
      using I(1-3) D(1-3) S(1-2) b unfolding subst(3)
      by (intro exI[of _ js] exI[of _ ds] exI[of _ "(?i - 1, ?j - 1) # ps"]) simp
  next
    case ins
    have b: "list_all (\<lambda>p. p < ?j) ((?j - 1) # js)" "list_all (\<lambda>p. p < ?i) ds"
      "list_all (\<lambda>(a, b). a < ?i \<and> b < ?j) ps"
      using I(4) D(4) S(5) ins(1) unfolding ins(2)
      by (auto elim: list_all_less_mono list_all_pair_mono)
    have "sorted_wrt (>) ((?j - 1) # js)"
      using I(3,4) unfolding ins(2) by (auto simp: list_all_iff)
    then show ?thesis
      unfolding bt_extends_def
      using I(1-2) D(1-3) S(1-4) b unfolding ins(2)
      by (intro exI[of _ "(?j - 1) # js"] exI[of _ ds] exI[of _ ps]) simp
  next
    case del
    have b: "list_all (\<lambda>p. p < ?j) js" "list_all (\<lambda>p. p < ?i) ((?i - 1) # ds)"
      "list_all (\<lambda>(a, b). a < ?i \<and> b < ?j) ps"
      using I(4) D(4) S(5) del(1) unfolding del(2)
      by (auto elim: list_all_less_mono list_all_pair_mono)
    have "sorted_wrt (>) ((?i - 1) # ds)"
      using D(3,4) unfolding del(2) by (auto simp: list_all_iff)
    then show ?thesis
      unfolding bt_extends_def
      using I(1-3) D(1-2) S(1-4) b unfolding del(2)
      by (intro exI[of _ js] exI[of _ "(?i - 1) # ds"] exI[of _ ps]) simp
  next
    case stuck
    then show ?thesis using assms by simp
  qed
qed

lemma bt_loop_extends:
  assumes "bt_loop r h ldm s = Some t"
  shows "bt_extends r h s t \<and> pos_i t = 0 \<and> pos_j t = 0"
proof (rule bt_loop.raw_induct[OF _ assms], goal_cases)
  case (1 f r h ldm s t)
  show ?case
  proof (cases "0 < pos_i s \<or> 0 < pos_j s")
    case True
    with 1(2) have "f r h ldm (bt_body r h ldm s) = Some t" by simp
    from 1(1)[OF this] show ?thesis by (auto intro: bt_extends_body)
  next
    case False
    with 1(2) have "t = s" by simp
    then show ?thesis using False by (simp add: bt_extends_refl)
  qed
qed

text \<open>\<open>calc_words\<close> in terms of the specified matrix.\<close>

lemma calc_words_build:
  "\<exists>ldm. agrees rw hw (length rw) (length hw) ldm (\<lambda>_ _. True) \<and>
    calc_words rw hw =
       (case bt_loop rw hw ldm (bt_init (length rw) (length hw)) of
          None \<Rightarrow> None
        | Some s \<Rightarrow>
            Some \<lparr>insertions = insertions s, deletions = deletions s,
                  substitutions = substitutions s,
                  inserted_words = rev (inserted_words s),
                  deleted_words = rev (deleted_words s),
                  substituted_words = rev (substituted_words s),
                  wer = true_divide (D_spec rw hw (length rw) (length hw)) (int (length rw)),
                  ld = D_spec rw hw (length rw) (length hw), ref_len = length rw\<rparr>)"
proof -
  obtain ldm where b: "build rw hw = (length rw, length hw, ldm)"
    and a: "agrees rw hw (length rw) (length hw) ldm (\<lambda>_ _. True)"
    using build_agrees by blast
  have "ldm ! length rw ! length hw = D_spec rw hw (length rw) (length hw)"
    using a by (simp add: agrees_def)
  then show ?thesis
    using a by (intro exI[of _ ldm]) (simp add: calc_words_def b Let_def split: option.split)
qed

text \<open>Runs of the loop that are known to end: along the left border (deletions only),
  along the top border (insertions only), and down the diagonal of equal sequences.\<close>

lemma bt_loop_deletions:
  assumes col: "\<And>a. a \<le> m \<Longrightarrow> ldm ! a ! 0 = int a"
  shows "pos_i s = k \<Longrightarrow> pos_j s = 0 \<Longrightarrow> k \<le> m \<Longrightarrow>
    bt_loop r h ldm s =
      Some (s\<lparr>deletions := deletions s + k,
              deleted_words := deleted_words s @ map ((!) r) (rev [0..<k]), pos_i := 0\<rparr>)"
proof (induction k arbitrary: s)
  case 0
  then show ?case by (subst bt_loop.simps) simp
next
  case (Suc k)
  let ?s' = "s\<lparr>deletions := deletions s + 1,
              deleted_words := deleted_words s @ [r ! k], pos_i := k\<rparr>"
  have "ldm ! Suc k ! 0 = ldm ! k ! 0 + 1"
    using Suc.prems(3) by (simp add: col)
  then have body: "bt_body r h ldm s = ?s'"
    using Suc.prems(1,2) by (simp add: bt_body_def Let_def)
  have "bt_loop r h ldm s = bt_loop r h ldm ?s'"
    using Suc.prems(1) by (subst bt_loop.simps) (simp add: body)
  also have "\<dots> = Some (?s'\<lparr>deletions := deletions ?s' + k,
              deleted_words := deleted_words ?s' @ map ((!) r) (rev [0..<k]), pos_i := 0\<rparr>)"
    using Suc.prems by (intro Suc.IH) simp_all
  finally show ?case by simp
qed

lemma bt_loop_insertions:
  assumes row: "\<And>b. b \<le> n \<Longrightarrow> ldm ! 0 ! b = int b"
  shows "pos_j s = k \<Longrightarrow> pos_i s = 0 \<Longrightarrow> k \<le> n \<Longrightarrow>
    bt_loop r h ldm s =
      Some (s\<lparr>insertions := insertions s + k,
              inserted_words := inserted_words s @ map ((!) h) (rev [0..<k]), pos_j := 0\<rparr>)"
proof (induction k arbitrary: s)
  case 0
  then show ?case by (subst bt_loop.simps) simp
next
  case (Suc k)
  let ?s' = "s\<lparr>insertions := insertions s + 1,
              inserted_words := inserted_words s @ [h ! k], pos_j := k\<rparr>"
  have "ldm ! 0 ! Suc k = ldm ! 0 ! k + 1"
    using Suc.prems(3) by (simp add: row)
  then have body: "bt_body r h ldm s = ?s'"
    using Suc.prems(1,2) by (simp add: bt_body_def Let_def)
  have "bt_loop r h ldm s = bt_loop r h ldm ?s'"
    using Suc.prems(1) by (subst bt_loop.simps) (simp add: body)
  also have "\<dots> = Some (?s'\<lparr>insertions := insertions ?s' + k,
              inserted_words := inserted_words ?s' @ map ((!) h) (rev [0..<k]), pos_j := 0\<rparr>)"
    using Suc.prems by (intro Suc.IH) simp_all
  finally show ?case by simp
qed

lemma bt_loop_diagonal:
  "pos_i s = k \<Longrightarrow> pos_j s = k \<Longrightarrow> bt_loop r r ldm s = Some (s\<lparr>pos_i := 0, pos_j := 0\<rparr>)"
proof (induction k arbitrary: s)
  case 0
  then show ?case by (subst bt_loop.simps) simp
next
  case (Suc k)
  let ?s' = "s\<lparr>pos_i := k, pos_j := k\<rparr>"
  have body: "bt_body r r ldm s = ?s'"
    using Suc.prems by (simp add: bt_body_def Let_def)
  have "bt_loop r r ldm s = bt_loop r r ldm ?s'"
    using Suc.prems(1) by (subst bt_loop.simps) (simp add: body)
  also have "\<dots> = Some (?s'\<lparr>pos_i := 0, pos_j := 0\<rparr>)"
    by (intro Suc.IH) simp_all
  finally show ?case by simp
qed

lemma D_spec_diagonal: "D_spec r r k k = 0"
  by (induction k) simp_all

lemma map_nth_rev_upt: "rev (map ((!) xs) (rev [0..<length xs])) = xs"
  by (simp add: rev_map map_nth)

section \<open>The element-wise loop of \<open>metrics\<close>\<close>

text \<open>The loop returns a list exactly when every call returns, and then the list holds
  the results in order.\<close>

lemma vec_loop_Inr:
  "vec_loop ps = Some (Inr vs) \<longleftrightarrow>
   list_all2 (\<lambda>p v. calculations (fst p) (snd p) = Some (Inr v)) ps vs"
proof (induction ps arbitrary: vs)
  case Nil
  then show ?case by auto
next
  case (Cons p ps)
  obtain x y where p: "p = (x, y)" by (cases p)
  show ?case
  proof (cases "calculations x y")
    case None
    then show ?thesis by (simp add: p list_all2_Cons1)
  next
    case (Some a)
    show ?thesis
    proof (cases a)
      case (Inl e)
      then show ?thesis using Some by (simp add: p list_all2_Cons1)
    next
      case (Inr v)
      show ?thesis
      proof (cases "vec_loop ps")
        case None
        then show ?thesis
          using \<open>calculations x y = Some a\<close> Inr
          by (auto simp: p list_all2_Cons1 Cons.IH[symmetric])
      next
        case (Some b)
        then show ?thesis
          using \<open>calculations x y = Some a\<close> Inr
          by (cases b) (auto simp: p list_all2_Cons1 Cons.IH[symmetric])
      qed
    qed
  qed
qed

lemma vec_loop_nth:
  assumes "length vs = length ps"
    and "\<And>k. k < length ps \<Longrightarrow> calculations (fst (ps ! k)) (snd (ps ! k)) = Some (Inr (vs ! k))"
  shows "vec_loop ps = Some (Inr vs)"
  using assms by (simp add: vec_loop_Inr list_all2_conv_all_nth)

lemma vec_loop_nthD:
  assumes "vec_loop ps = Some (Inr vs)"
  shows "length vs = length ps"
    and "k < length ps \<Longrightarrow> calculations (fst (ps ! k)) (snd (ps ! k)) = Some (Inr (vs ! k))"
  using assms by (simp_all add: vec_loop_Inr list_all2_conv_all_nth)

section \<open>\<open>metrics\<close> on two collections\<close>

text \<open>Once the first call has returned, \<open>metrics\<close> is the broadcast loop: ValueError for
  lengths that differ when neither is 1, one record per pair for equal lengths, and one
  record per element of the longer collection when the other has length 1.\<close>

lemma metrics_Coll_Coll:
  assumes "rs \<noteq> []" and "hs \<noteq> []"
    and "calculations (PyStr (strip_nul (hd rs))) (PyStr (strip_nul (hd hs))) = Some (Inr v0)"
  shows "metrics np (Coll rs) (Coll hs) = ufunc_call np (Coll rs) (Coll hs)"
  using assms by (simp add: metrics_def hd_map)

lemma metrics_collections:
  assumes "rs \<noteq> []" and "hs \<noteq> []"
    and "calculations (PyStr (strip_nul (hd rs))) (PyStr (strip_nul (hd hs))) = Some (Inr v0)"
  shows "(length rs \<noteq> length hs \<and> length rs \<noteq> 1 \<and> length hs \<noteq> 1 \<longrightarrow>
            metrics np (Coll rs) (Coll hs) = Some (Inl ValueError))
       \<and> (length rs = length hs \<and> length vs = length rs \<and>
            (\<forall>k<length rs. calculations (PyStr (rs ! k)) (PyStr (hs ! k)) = Some (Inr (vs ! k))) \<longrightarrow>
            metrics np (Coll rs) (Coll hs) = Some (Inr (Batch vs)))
       \<and> (length rs = 1 \<and> length hs \<noteq> 1 \<and> length vs = length hs \<and>
            (\<forall>k<length hs. calculations (PyStr (hd rs)) (PyStr (hs ! k)) = Some (Inr (vs ! k))) \<longrightarrow>
            metrics np (Coll rs) (Coll hs) = Some (Inr (Batch vs)))
       \<and> (length hs = 1 \<and> length rs \<noteq> 1 \<and> length vs = length rs \<and>
            (\<forall>k<length rs. calculations (PyStr (rs ! k)) (PyStr (hd hs)) = Some (Inr (vs ! k))) \<longrightarrow>
            metrics np (Coll rs) (Coll hs) = Some (Inr (Batch vs)))"
proof (intro conjI impI)
  assume "length rs \<noteq> length hs \<and> length rs \<noteq> 1 \<and> length hs \<noteq> 1"
  then show "metrics np (Coll rs) (Coll hs) = Some (Inl ValueError)"
    unfolding metrics_Coll_Coll[OF assms] by simp
next
  assume a: "length rs = length hs \<and> length vs = length rs \<and>
    (\<forall>k<length rs. calculations (PyStr (rs ! k)) (PyStr (hs ! k)) = Some (Inr (vs ! k)))"
  have "vec_loop (zip (map PyStr rs) (map PyStr hs)) = Some (Inr vs)"
    using a by (intro vec_loop_nth) simp_all
  then show "metrics np (Coll rs) (Coll hs) = Some (Inr (Batch vs))"
    unfolding metrics_Coll_Coll[OF assms] using a by simp
next
  assume a: "length rs = 1 \<and> length hs \<noteq> 1 \<and> length vs = length hs \<and>
    (\<forall>k<length hs. calculations (PyStr (hd rs)) (PyStr (hs ! k)) = Some (Inr (vs ! k)))"
  have "vec_loop (map (\<lambda>y. (PyStr (hd rs), PyStr y)) hs) = Some (Inr vs)"
    using a by (intro vec_loop_nth) simp_all
  then show "metrics np (Coll rs) (Coll hs) = Some (Inr (Batch vs))"
    unfolding metrics_Coll_Coll[OF assms] using a by simp
next
  assume a: "length hs = 1 \<and> length rs \<noteq> 1 \<and> length vs = length rs \<and>
    (\<forall>k<length rs. calculations (PyStr (rs ! k)) (PyStr (hd hs)) = Some (Inr (vs ! k)))"
  have "vec_loop (map (\<lambda>x. (PyStr x, PyStr (hd hs))) rs) = Some (Inr vs)"
    using a by (intro vec_loop_nth) simp_all
  then show "metrics np (Coll rs) (Coll hs) = Some (Inr (Batch vs))"
    unfolding metrics_Coll_Coll[OF assms] using a by simp
qed

text \<open>The first call reads the first strings without their trailing NULs. Here the
  unchanged first pair would never return (\<open>a\<close> followed by NUL against \<open>a\<close> is a single
  mismatch), the first call returns, and the lengths 2 and 3 then raise ValueError.\<close>

lemma metrics_first_call_drops_nul:
  "metrics np (Coll [[CHR ''a'', CHR 0x00], ''b'']) (Coll [''a'', ''b'', ''c''])
     = Some (Inl ValueError)"
proof (cases np)
  case Upto_2_2
  show ?thesis unfolding Upto_2_2 by code_simp
next
  case From_2_3
  show ?thesis unfolding From_2_3 by code_simp
qed

section \<open>\<open>wers\<close> after a successful \<open>metrics\<close>\<close>

text \<open>On collections of equal length \<open>wers\<close> returns the \<open>wer\<close> fields in order. On a pair
  of strings it returns the \<open>wer\<close> field with NumPy up to 2.2, and raises IndexError with
  NumPy from 2.3 on.\<close>

lemma wers_of_metrics:
  "(length rs = length hs \<and> metrics np (Coll rs) (Coll hs) = Some (Inr b) \<longrightarrow>
      (\<exists>vs. length vs = length rs
          \<and> (\<forall>k<length rs. calculations (PyStr (rs ! k)) (PyStr (hs ! k)) = Some (Inr (vs ! k)))
          \<and> wers np (Coll rs) (Coll hs) = Some (Inr ([], Some (WerList (map wer vs))))))
 \<and> (metrics Upto_2_2 (Scalar (PyStr r)) (Scalar (PyStr h)) = Some (Inr b') \<longrightarrow>
      (\<exists>v. calculations (PyStr r) (PyStr h) = Some (Inr v)
          \<and> wers Upto_2_2 (Scalar (PyStr r)) (Scalar (PyStr h))
              = Some (Inr ([], Some (WerScalar (wer v))))))
 \<and> (metrics From_2_3 (Scalar (PyStr r)) (Scalar (PyStr h)) = Some (Inr b'') \<longrightarrow>
      wers From_2_3 (Scalar (PyStr r)) (Scalar (PyStr h)) = Some (Inl IndexError))"
proof (intro conjI impI)
  assume a: "length rs = length hs \<and> metrics np (Coll rs) (Coll hs) = Some (Inr b)"
  then have u: "ufunc_call np (Coll rs) (Coll hs) = Some (Inr b)"
    by (auto simp: metrics_def split: if_splits option.splits sum.splits)
  with a obtain z where z: "vec_loop (zip (map PyStr rs) (map PyStr hs)) = Some z"
    "map_sum id Batch z = Inr b"
    by auto
  then obtain vs where v: "vec_loop (zip (map PyStr rs) (map PyStr hs)) = Some (Inr vs)"
    and b: "b = Batch vs"
    by (cases z) auto
  have "length vs = length rs"
    using vec_loop_nthD(1)[OF v] a by simp
  moreover have "calculations (PyStr (rs ! k)) (PyStr (hs ! k)) = Some (Inr (vs ! k))"
    if "k < length rs" for k
    using vec_loop_nthD(2)[OF v, of k] a that by simp
  moreover have "wers np (Coll rs) (Coll hs) = Some (Inr ([], Some (WerList (map wer vs))))"
    using a b by (simp add: wers_def)
  ultimately show "\<exists>vs. length vs = length rs
          \<and> (\<forall>k<length rs. calculations (PyStr (rs ! k)) (PyStr (hs ! k)) = Some (Inr (vs ! k)))
          \<and> wers np (Coll rs) (Coll hs) = Some (Inr ([], Some (WerList (map wer vs))))"
    by blast
next
  assume a: "metrics Upto_2_2 (Scalar (PyStr r)) (Scalar (PyStr h)) = Some (Inr b')"
  then obtain z where "calculations (PyStr r) (PyStr h) = Some z" "map_sum id Single z = Inr b'"
    by (auto simp: metrics_def split: option.splits sum.splits)
  then obtain v where "calculations (PyStr r) (PyStr h) = Some (Inr v)" and "b' = Single v"
    by (cases z) auto
  then show "\<exists>v. calculations (PyStr r) (PyStr h) = Some (Inr v)
          \<and> wers Upto_2_2 (Scalar (PyStr r)) (Scalar (PyStr h))
              = Some (Inr ([], Some (WerScalar (wer v))))"
    using a by (simp add: wers_def)
next
  assume a: "metrics From_2_3 (Scalar (PyStr r)) (Scalar (PyStr h)) = Some (Inr b'')"
  then obtain z where "calculations (PyStr r) (PyStr h) = Some z" "map_sum id ZeroDim z = Inr b''"
    by (auto simp: metrics_def split: option.splits sum.splits)
  then obtain v where "b'' = ZeroDim v"
    by (cases z) auto
  then show "wers From_2_3 (Scalar (PyStr r)) (Scalar (PyStr h)) = Some (Inl IndexError)"
    using a by (simp add: wers_def)
qed

section \<open>Properties of \<open>calculations\<close>, \<open>metrics\<close> and \<open>wers\<close>\<close>

text \<open>
  C1. Reference \<open>a b c\<close> against hypothesis \<open>a x c\<close>. The code returns distance 4 and
  \<open>wer = 4/3\<close>, but its backtrace compares neighbouring cells with a difference of 1
  while the fill used the costs 3 and 4: at cell (2, 2), of value 4, the substitution
  test \<open>4 = 0 + 1\<close> fails and the insertion test \<open>4 = 3 + 1\<close> succeeds. The code reports two
  insertions and two deletions and no substitution, where the specification expects the
  single substitution of \<open>b\<close> by \<open>x\<close>.
\<close>

theorem calculations_abc_axc: "calculations (PyStr ''a b c'') (PyStr ''a x c'') = Some
  (Inr \<lparr>insertions = 2, deletions = 2, substitutions = 0,
          inserted_words = [''a'', ''x''], deleted_words = [''a'', ''b''],
          substituted_words = [], wer = Finite (4 / 3), ld = 4,
          ref_len = 3\<rparr>)"
  by code_simp

text \<open>
  C2. For all token sequences the code builds an \<open>(m + 1) \<times> (n + 1)\<close> matrix whose border is
  \<open>D[i][0] = i\<close> and \<open>D[0][j] = j\<close>, whose inner cells are \<open>D[i-1][j-1]\<close> on equal words and
  \<open>min (D[i-1][j-1] + 4, D[i][j-1] + 3, D[i-1][j] + 3)\<close> otherwise; the loop variables end
  at \<open>i = m\<close>, \<open>j = n\<close>, so that the reported distance \<open>ldm[i, j]\<close> is \<open>D[m][n]\<close>.
\<close>

theorem calculations_matrix:
  assumes "split reference = rw" and "split hypothesis = hw" and "build rw hw = (i, j, D)"
  shows "length D = length rw + 1 \<and> (\<forall>a\<le>length rw. length (D ! a) = length hw + 1)
       \<and> (\<forall>a\<le>length rw. D ! a ! 0 = int a)
       \<and> (\<forall>b\<le>length hw. D ! 0 ! b = int b)
       \<and> (\<forall>a b. 1 \<le> a \<and> a \<le> length rw \<and> 1 \<le> b \<and> b \<le> length hw \<longrightarrow>
             D ! a ! b =
               (if rw ! (a - 1) = hw ! (b - 1) then D ! (a - 1) ! (b - 1)
                else min (D ! (a - 1) ! (b - 1) + 4) (min (D ! a ! (b - 1) + 3) (D ! (a - 1) ! b + 3))))
       \<and> i = length rw \<and> j = length hw
       \<and> (\<forall>res. calculations (PyStr reference) (PyStr hypothesis) = Some (Inr res) \<longrightarrow>
             ld res = D ! length rw ! length hw)"
proof -
  from build_agrees[of rw hw] assms(3)
  have ij: "i = length rw" "j = length hw"
    and ag: "agrees rw hw (length rw) (length hw) D (\<lambda>_ _. True)"
    by auto
  have D: "D ! a ! b = D_spec rw hw a b" if "a \<le> length rw" "b \<le> length hw" for a b
    using ag that by (simp add: agrees_def)
  have shape: "length D = length rw + 1 \<and> (\<forall>a\<le>length rw. length (D ! a) = length hw + 1)"
    using ag by (simp add: agrees_def)
  have rows: "\<forall>a\<le>length rw. D ! a ! 0 = int a"
    by (simp add: D)
  have cols: "\<forall>b\<le>length hw. D ! 0 ! b = int b"
    by (simp add: D)
  have inner: "D ! a ! b =
               (if rw ! (a - 1) = hw ! (b - 1) then D ! (a - 1) ! (b - 1)
                else min (D ! (a - 1) ! (b - 1) + 4) (min (D ! a ! (b - 1) + 3) (D ! (a - 1) ! b + 3)))"
    if rng: "1 \<le> a \<and> a \<le> length rw \<and> 1 \<le> b \<and> b \<le> length hw" for a b
  proof -
    obtain a' b' where ab: "a = Suc a'" "b = Suc b'"
      using rng by (cases a; cases b) auto
    have "a' \<le> length rw" "b' \<le> length hw" "Suc a' \<le> length rw" "Suc b' \<le> length hw"
      using rng ab by simp_all
    then have "D ! Suc a' ! Suc b' = D_spec rw hw (Suc a') (Suc b')"
      "D ! a' ! b' = D_spec rw hw a' b'" "D ! Suc a' ! b' = D_spec rw hw (Suc a') b'"
      "D ! a' ! Suc b' = D_spec rw hw a' (Suc b')"
      by (simp_all only: D)
    then show ?thesis by (simp add: ab)
  qed
  have dist: "ld res = D ! length rw ! length hw"
    if "calculations (PyStr reference) (PyStr hypothesis) = Some (Inr res)" for res
    using that assms ij by (auto simp: calc_words_def Let_def split: option.splits)
  show ?thesis
    using shape rows cols inner ij dist by blast
qed

theorem calculations_matrix_witness:
  "split ''a b c'' = [''a'', ''b'', ''c''] \<and> split ''a x c'' = [''a'', ''x'', ''c'']
   \<and> build [''a'', ''b'', ''c''] [''a'', ''x'', ''c'']
       = (3, 3, [[0, 1, 2, 3], [1, 0, 3, 6], [2, 3, 4, 7], [3, 6, 7, 4]])
   \<and> [[0, 1, 2, 3], [1, 0, 3, 6], [2, 3, 4, 7], [3, 6, 7, 4 :: int]] ! 2 ! 2
       = min (0 + 4) (min (3 + 3) (3 + 3))
   \<and> (\<exists>res. calculations (PyStr ''a b c'') (PyStr ''a x c'') = Some (Inr res) \<and> ld res = 4)"
proof -
  have 1: "split ''a b c'' = [''a'', ''b'', ''c'']" by code_simp
  have 2: "split ''a x c'' = [''a'', ''x'', ''c'']" by code_simp
  have 3: "build [''a'', ''b'', ''c''] [''a'', ''x'', ''c'']
       = (3, 3, [[0, 1, 2, 3], [1, 0, 3, 6], [2, 3, 4, 7], [3, 6, 7, 4]])" by code_simp
  have "calculations (PyStr ''a b c'') (PyStr ''a x c'') \<noteq> None"
    by code_simp
  then obtain res where 4: "calculations (PyStr ''a b c'') (PyStr ''a x c'') = Some (Inr res)"
    unfolding 1 2 calculations.simps by auto
  show ?thesis
    using calculations_matrix[OF 1 2 3] 1 2 3 4 by simp
qed

text \<open>
  C3. The backtrace does not always end. With reference \<open>a\<close> and hypothesis \<open>b\<close> the matrix
  is \<open>[[0, 1], [1, 4]]\<close>; at \<open>(i, j) = (1, 1)\<close> the words differ and 4 is none of
  \<open>0 + 1\<close>, \<open>1 + 1\<close>, \<open>1 + 1\<close>, so no branch of the loop body applies, \<open>i\<close> and \<open>j\<close> keep
  their values and the \<open>while\<close> loop runs forever.
\<close>

theorem calculations_a_b_diverges: "calculations (PyStr ''a'') (PyStr ''b'') = None"
proof -
  have b: "build [''a''] [''b''] = (1, 1, [[0, 1], [1, 4]])"
    by code_simp
  have "bt_body [''a''] [''b''] [[0, 1], [1, 4]] (bt_init 1 1) = bt_init 1 1"
    by (simp add: bt_body_def bt_init_def)
  then have "bt_loop [''a''] [''b''] [[0, 1], [1, 4]] (bt_init 1 1) = None"
    by (intro bt_stuck) (simp_all add: bt_init_def)
  moreover have "split ''a'' = [''a'']" "split ''b'' = [''b'']"
    by code_simp+
  ultimately show ?thesis
    using b by (simp add: calc_words_def)
qed

text \<open>
  C5. Whenever \<open>calculations\<close> returns, each count is the length of its list, and each
  list follows the order of the original sequences: the inserted words are the hypothesis
  words at strictly increasing positions, the deleted words are the reference words at
  strictly increasing positions, and the substituted pairs are taken at positions that
  increase strictly in both the reference and the hypothesis.
\<close>

theorem calculations_counts_and_order:
  assumes "calculations (PyStr reference) (PyStr hypothesis) = Some (Inr res)"
  shows "insertions res = length (inserted_words res)
       \<and> deletions res = length (deleted_words res)
       \<and> substitutions res = length (substituted_words res)
       \<and> (\<exists>js. sorted_wrt (<) js \<and> list_all (\<lambda>p. p < length (split hypothesis)) js
               \<and> inserted_words res = map ((!) (split hypothesis)) js)
       \<and> (\<exists>ds. sorted_wrt (<) ds \<and> list_all (\<lambda>p. p < length (split reference)) ds
               \<and> deleted_words res = map ((!) (split reference)) ds)
       \<and> (\<exists>ps. sorted_wrt (<) (map fst ps) \<and> sorted_wrt (<) (map snd ps)
               \<and> list_all (\<lambda>(a, b). a < length (split reference) \<and> b < length (split hypothesis)) ps
               \<and> substituted_words res
                   = map (\<lambda>(a, b). (split reference ! a, split hypothesis ! b)) ps)"
proof -
  let ?rw = "split reference" and ?hw = "split hypothesis"
  from assms have cw: "calc_words ?rw ?hw = Some res" by auto
  obtain ldm where
    "calc_words ?rw ?hw =
       (case bt_loop ?rw ?hw ldm (bt_init (length ?rw) (length ?hw)) of
          None \<Rightarrow> None
        | Some s \<Rightarrow>
            Some \<lparr>insertions = insertions s, deletions = deletions s,
                  substitutions = substitutions s,
                  inserted_words = rev (inserted_words s),
                  deleted_words = rev (deleted_words s),
                  substituted_words = rev (substituted_words s),
                  wer = true_divide (D_spec ?rw ?hw (length ?rw) (length ?hw)) (int (length ?rw)),
                  ld = D_spec ?rw ?hw (length ?rw) (length ?hw), ref_len = length ?rw\<rparr>)"
    using calc_words_build by blast
  with cw obtain t where
    loop: "bt_loop ?rw ?hw ldm (bt_init (length ?rw) (length ?hw)) = Some t"
    and res: "insertions res = insertions t" "deletions res = deletions t"
      "substitutions res = substitutions t"
      "inserted_words res = rev (inserted_words t)"
      "deleted_words res = rev (deleted_words t)"
      "substituted_words res = rev (substituted_words t)"
    by (auto split: option.splits)
  from bt_loop_extends[OF loop] obtain js ds ps where
    I: "inserted_words t = map ((!) ?hw) js" "insertions t = length js"
       "sorted_wrt (>) js" "list_all (\<lambda>p. p < length ?hw) js"
    and D: "deleted_words t = map ((!) ?rw) ds" "deletions t = length ds"
       "sorted_wrt (>) ds" "list_all (\<lambda>p. p < length ?rw) ds"
    and S: "substituted_words t = map (\<lambda>(a, b). (?rw ! a, ?hw ! b)) ps"
       "substitutions t = length ps"
       "sorted_wrt (>) (map fst ps)" "sorted_wrt (>) (map snd ps)"
       "list_all (\<lambda>(a, b). a < length ?rw \<and> b < length ?hw) ps"
    unfolding bt_extends_def bt_init_def by auto
  have 1: "sorted_wrt (<) (rev js) \<and> list_all (\<lambda>p. p < length ?hw) (rev js)
         \<and> inserted_words res = map ((!) ?hw) (rev js)"
    using I res by (simp add: sorted_wrt_rev rev_map)
  have 2: "sorted_wrt (<) (rev ds) \<and> list_all (\<lambda>p. p < length ?rw) (rev ds)
         \<and> deleted_words res = map ((!) ?rw) (rev ds)"
    using D res by (simp add: sorted_wrt_rev rev_map)
  have "sorted_wrt (<) (map fst (rev ps))" "sorted_wrt (<) (map snd (rev ps))"
    using S(3,4) by (simp_all add: sorted_wrt_rev flip: rev_map)
  moreover have "list_all (\<lambda>(a, b). a < length ?rw \<and> b < length ?hw) (rev ps)"
    "substituted_words res = map (\<lambda>(a, b). (?rw ! a, ?hw ! b)) (rev ps)"
    using S(1,5) res by (simp_all add: rev_map)
  ultimately have 3: "sorted_wrt (<) (map fst (rev ps)) \<and> sorted_wrt (<) (map snd (rev ps))
         \<and> list_all (\<lambda>(a, b). a < length ?rw \<and> b < length ?hw) (rev ps)
         \<and> substituted_words res = map (\<lambda>(a, b). (?rw ! a, ?hw ! b)) (rev ps)"
    by blast
  have 0: "insertions res = length (inserted_words res)"
    "deletions res = length (deleted_words res)"
    "substitutions res = length (substituted_words res)"
    using I D S res by simp_all
  show ?thesis
    using 0 1 2 3 by blast
qed

theorem calculations_counts_and_order_witness:
  "\<exists>res. calculations (PyStr ''a b c'') (PyStr ''a x c'') = Some (Inr res)
       \<and> insertions res = length (inserted_words res)
       \<and> deletions res = length (deleted_words res)
       \<and> substitutions res = length (substituted_words res)
       \<and> (\<exists>js. sorted_wrt (<) js \<and> inserted_words res = map ((!) (split ''a x c'')) js)
       \<and> (\<exists>ds. sorted_wrt (<) ds \<and> deleted_words res = map ((!) (split ''a b c'')) ds)"
proof -
  have "calculations (PyStr ''a b c'') (PyStr ''a x c'') \<noteq> None"
    by code_simp
  moreover have "calculations (PyStr ''a b c'') (PyStr ''a x c'') \<noteq> Some (Inl e)" for e
    by (cases "calc_words (split ''a b c'') (split ''a x c'')") simp_all
  ultimately obtain res where r: "calculations (PyStr ''a b c'') (PyStr ''a x c'') = Some (Inr res)"
    by (metis not_Some_eq sum.exhaust_sel sumE)
  show ?thesis
    using calculations_counts_and_order[OF r] r by blast
qed

text \<open>
  C4, as stated. A reference that is not the empty string may still hold no word: for the
  string of one blank the code divides \<open>0 / 0\<close> and returns \<open>wer = nan\<close>, not \<open>0.0\<close>.
\<close>

theorem calculations_identity_blank_counterexample:
  "'' '' \<noteq> [] \<and>
   calculations (PyStr '' '') (PyStr '' '') =
     Some (Inr \<lparr>insertions = 0, deletions = 0, substitutions = 0,
                 inserted_words = [], deleted_words = [], substituted_words = [],
                 wer = NaN, ld = 0, ref_len = 0\<rparr>)"
  by code_simp

text \<open>
  C4, amended. For every reference string with at least one word, \<open>calculations\<close> of the
  string against itself returns distance 0, \<open>wer = 0.0\<close>, the three counts 0 and the three
  lists empty.
\<close>

theorem calculations_identity:
  assumes "split reference \<noteq> []"
  shows "calculations (PyStr reference) (PyStr reference) =
     Some (Inr \<lparr>insertions = 0, deletions = 0, substitutions = 0,
                 inserted_words = [], deleted_words = [], substituted_words = [],
                 wer = Finite 0, ld = 0, ref_len = length (split reference)\<rparr>)"
proof -
  let ?rw = "split reference"
  obtain ldm where
    c: "calc_words ?rw ?rw =
       (case bt_loop ?rw ?rw ldm (bt_init (length ?rw) (length ?rw)) of
          None \<Rightarrow> None
        | Some s \<Rightarrow>
            Some \<lparr>insertions = insertions s, deletions = deletions s,
                  substitutions = substitutions s,
                  inserted_words = rev (inserted_words s),
                  deleted_words = rev (deleted_words s),
                  substituted_words = rev (substituted_words s),
                  wer = true_divide (D_spec ?rw ?rw (length ?rw) (length ?rw)) (int (length ?rw)),
                  ld = D_spec ?rw ?rw (length ?rw) (length ?rw), ref_len = length ?rw\<rparr>)"
    using calc_words_build[of ?rw ?rw] by blast
  have loop: "bt_loop ?rw ?rw ldm (bt_init (length ?rw) (length ?rw)) =
      Some ((bt_init (length ?rw) (length ?rw))\<lparr>pos_i := 0, pos_j := 0\<rparr>)"
    by (rule bt_loop_diagonal[where k = "length ?rw"]) (simp_all add: bt_init_def)
  have w: "true_divide 0 (int (length ?rw)) = Finite 0"
    using assms by (simp add: true_divide_def)
  have "calc_words ?rw ?rw =
     Some \<lparr>insertions = 0, deletions = 0, substitutions = 0,
                 inserted_words = [], deleted_words = [], substituted_words = [],
                 wer = Finite 0, ld = 0, ref_len = length ?rw\<rparr>"
    unfolding c loop by (simp add: bt_init_def w D_spec_diagonal)
  then show ?thesis by simp
qed

theorem calculations_identity_witness:
  "split ''no one else could claim that'' \<noteq> [] \<and>
   calculations (PyStr ''no one else could claim that'') (PyStr ''no one else could claim that'') =
     Some (Inr \<lparr>insertions = 0, deletions = 0, substitutions = 0,
                 inserted_words = [], deleted_words = [], substituted_words = [],
                 wer = Finite 0, ld = 0, ref_len = 6\<rparr>)"
proof -
  have 1: "split ''no one else could claim that'' \<noteq> []" by code_simp
  have 2: "length (split ''no one else could claim that'') = 6" by code_simp
  show ?thesis
    using calculations_identity[OF 1] 1 2 by simp
qed

text \<open>
  C6, as stated. On a reference without words the code does not fail: the division of the
  NumPy integer by zero yields an infinity (or \<open>nan\<close>), and the function returns.
\<close>

theorem calculations_empty_reference_counterexample:
  "split [] = [] \<and>
   calculations (PyStr []) (PyStr ''x'') =
     Some (Inr \<lparr>insertions = 1, deletions = 0, substitutions = 0,
                 inserted_words = [''x''], deleted_words = [], substituted_words = [],
                 wer = PosInf, ld = 1, ref_len = 0\<rparr>)"
  by code_simp

text \<open>
  C6, amended. For every hypothesis string and every reference string without words,
  \<open>calculations\<close> returns: the distance is the number \<open>n\<close> of hypothesis words, \<open>wer\<close> is
  \<open>nan\<close> when \<open>n = 0\<close> and \<open>inf\<close> otherwise, every hypothesis word is reported as inserted,
  in order, and nothing is deleted or substituted.
\<close>

theorem calculations_empty_reference:
  assumes "split reference = []" and "split hypothesis = hw"
  shows "calculations (PyStr reference) (PyStr hypothesis) =
     Some (Inr \<lparr>insertions = length hw, deletions = 0, substitutions = 0,
                 inserted_words = hw, deleted_words = [], substituted_words = [],
                 wer = (if hw = [] then NaN else PosInf), ld = int (length hw), ref_len = 0\<rparr>)"
proof -
  let ?rw = "[] :: string list"
  obtain ldm where a: "agrees ?rw hw (length ?rw) (length hw) ldm (\<lambda>_ _. True)"
    and c: "calc_words ?rw hw =
       (case bt_loop ?rw hw ldm (bt_init (length ?rw) (length hw)) of
          None \<Rightarrow> None
        | Some s \<Rightarrow>
            Some \<lparr>insertions = insertions s, deletions = deletions s,
                  substitutions = substitutions s,
                  inserted_words = rev (inserted_words s),
                  deleted_words = rev (deleted_words s),
                  substituted_words = rev (substituted_words s),
                  wer = true_divide (D_spec ?rw hw (length ?rw) (length hw)) (int (length ?rw)),
                  ld = D_spec ?rw hw (length ?rw) (length hw), ref_len = length ?rw\<rparr>)"
    using calc_words_build[of ?rw hw] by blast
  have row: "ldm ! 0 ! b = int b" if "b \<le> length hw" for b
    using a that by (simp add: agrees_def)
  have loop: "bt_loop ?rw hw ldm (bt_init (length ?rw) (length hw)) =
      Some ((bt_init (length ?rw) (length hw))\<lparr>insertions := insertions (bt_init (length ?rw) (length hw)) + length hw,
              inserted_words := inserted_words (bt_init (length ?rw) (length hw))
                 @ map ((!) hw) (rev [0..<length hw]), pos_j := 0\<rparr>)"
    by (rule bt_loop_insertions[where n = "length hw"]) (simp_all add: row bt_init_def)
  have w: "true_divide (int (length hw)) 0 = (if hw = [] then NaN else PosInf)"
    by (simp add: true_divide_def)
  have "calc_words ?rw hw =
     Some \<lparr>insertions = length hw, deletions = 0, substitutions = 0,
                 inserted_words = hw, deleted_words = [], substituted_words = [],
                 wer = (if hw = [] then NaN else PosInf), ld = int (length hw), ref_len = 0\<rparr>"
    unfolding c loop using w by (simp add: bt_init_def map_nth_rev_upt)
  then show ?thesis
    using assms by simp
qed

theorem calculations_empty_reference_witness:
  "split ''  '' = [] \<and> split ''x y'' = [''x'', ''y''] \<and>
   calculations (PyStr ''  '') (PyStr ''x y'') =
     Some (Inr \<lparr>insertions = 2, deletions = 0, substitutions = 0,
                 inserted_words = [''x'', ''y''], deleted_words = [], substituted_words = [],
                 wer = PosInf, ld = 2, ref_len = 0\<rparr>)"
proof -
  have 1: "split ''  '' = []" by code_simp
  have 2: "split ''x y'' = [''x'', ''y'']" by code_simp
  show ?thesis
    using calculations_empty_reference[OF 1 2] 1 2 by simp
qed

text \<open>
  C10. For a reference of \<open>m \<ge> 1\<close> words and a hypothesis without words, \<open>calculations\<close>
  returns distance \<open>m\<close>, \<open>wer = 1.0\<close>, \<open>m\<close> deletions whose words are the reference words in
  order, and no insertion or substitution.
\<close>

theorem calculations_empty_hypothesis:
  assumes "split reference = rw" and "rw \<noteq> []" and "split hypothesis = []"
  shows "calculations (PyStr reference) (PyStr hypothesis) =
     Some (Inr \<lparr>insertions = 0, deletions = length rw, substitutions = 0,
                 inserted_words = [], deleted_words = rw, substituted_words = [],
                 wer = Finite 1, ld = int (length rw), ref_len = length rw\<rparr>)"
proof -
  let ?hw = "[] :: string list"
  obtain ldm where a: "agrees rw ?hw (length rw) (length ?hw) ldm (\<lambda>_ _. True)"
    and c: "calc_words rw ?hw =
       (case bt_loop rw ?hw ldm (bt_init (length rw) (length ?hw)) of
          None \<Rightarrow> None
        | Some s \<Rightarrow>
            Some \<lparr>insertions = insertions s, deletions = deletions s,
                  substitutions = substitutions s,
                  inserted_words = rev (inserted_words s),
                  deleted_words = rev (deleted_words s),
                  substituted_words = rev (substituted_words s),
                  wer = true_divide (D_spec rw ?hw (length rw) (length ?hw)) (int (length rw)),
                  ld = D_spec rw ?hw (length rw) (length ?hw), ref_len = length rw\<rparr>)"
    using calc_words_build[of rw ?hw] by blast
  have col: "ldm ! a ! 0 = int a" if "a \<le> length rw" for a
    using a that by (simp add: agrees_def)
  have loop: "bt_loop rw ?hw ldm (bt_init (length rw) (length ?hw)) =
      Some ((bt_init (length rw) (length ?hw))\<lparr>deletions := deletions (bt_init (length rw) (length ?hw)) + length rw,
              deleted_words := deleted_words (bt_init (length rw) (length ?hw))
                 @ map ((!) rw) (rev [0..<length rw]), pos_i := 0\<rparr>)"
    by (rule bt_loop_deletions[where m = "length rw"]) (simp_all add: col bt_init_def)
  have w: "true_divide (int (length rw)) (int (length rw)) = Finite 1"
    using assms(2) by (simp add: true_divide_def)
  have "calc_words rw ?hw =
     Some \<lparr>insertions = 0, deletions = length rw, substitutions = 0,
                 inserted_words = [], deleted_words = rw, substituted_words = [],
                 wer = Finite 1, ld = int (length rw), ref_len = length rw\<rparr>"
    unfolding c loop by (simp add: bt_init_def w map_nth_rev_upt)
  then show ?thesis
    using assms(1,3) by simp
qed

theorem calculations_empty_hypothesis_witness:
  "split ''a b'' = [''a'', ''b''] \<and> [''a'', ''b''] \<noteq> [] \<and> split [] = [] \<and>
   calculations (PyStr ''a b'') (PyStr []) =
     Some (Inr \<lparr>insertions = 0, deletions = 2, substitutions = 0,
                 inserted_words = [], deleted_words = [''a'', ''b''], substituted_words = [],
                 wer = Finite 1, ld = 2, ref_len = 2\<rparr>)"
proof -
  have 1: "split ''a b'' = [''a'', ''b'']" by code_simp
  have 2: "[''a'', ''b''] \<noteq> ([] :: string list)" by simp
  have 3: "split [] = []" by code_simp
  show ?thesis
    using calculations_empty_hypothesis[OF 1 2 3] 1 3 by simp
qed

text \<open>
  C7. Two collections of different lengths. The claim, the \<open>Raises\<close> section of the
  docstring of \<open>wers\<close> and the diagnostic that \<open>wers\<close> prints all say that such a call fails
  with ValueError. The code broadcasts a collection of length 1 instead: for the reference
  \<open>['a']\<close> against the hypotheses \<open>['a', 'a b']\<close>, and for the references \<open>['a', 'a b']\<close>
  against the hypothesis \<open>['a']\<close>, \<open>metrics\<close> returns two records, one for each element of the
  longer collection paired with the single element of the other.
\<close>

theorem metrics_broadcasts_length_one:
  "metrics np (Coll [''a'']) (Coll [''a'', ''a b'']) =
     Some (Inr (Batch
       [\<lparr>insertions = 0, deletions = 0, substitutions = 0,
          inserted_words = [], deleted_words = [], substituted_words = [],
          wer = Finite 0, ld = 0, ref_len = 1\<rparr>,
        \<lparr>insertions = 2, deletions = 1, substitutions = 0,
          inserted_words = [''a'', ''b''], deleted_words = [''a''], substituted_words = [],
          wer = Finite 3, ld = 3, ref_len = 1\<rparr>]))
   \<and> metrics np (Coll [''a'', ''a b'']) (Coll [''a'']) =
     Some (Inr (Batch
       [\<lparr>insertions = 0, deletions = 0, substitutions = 0,
          inserted_words = [], deleted_words = [], substituted_words = [],
          wer = Finite 0, ld = 0, ref_len = 1\<rparr>,
        \<lparr>insertions = 1, deletions = 2, substitutions = 0,
          inserted_words = [''a''], deleted_words = [''a'', ''b''], substituted_words = [],
          wer = Finite (3 / 2), ld = 3, ref_len = 2\<rparr>]))"
proof (cases np)
  case Upto_2_2
  show ?thesis unfolding Upto_2_2 by code_simp
next
  case From_2_3
  show ?thesis unfolding From_2_3 by code_simp
qed

text \<open>
  C8. A single pair of strings. The claim and the docstring of \<open>wers\<close> say that \<open>wers\<close>
  returns one word error rate. With NumPy from 2.3 on, \<open>metrics\<close> yields a 0-dimensional
  array for the pair, \<open>word_error_rate_breakdown[0]\<close> raises IndexError outside both \<open>except\<close>
  clauses, and \<open>wers\<close> raises; with NumPy up to 2.2 the same call returns the rate.
\<close>

theorem wers_pair_of_strings:
  "metrics From_2_3 (Scalar (PyStr ''a b'')) (Scalar (PyStr ''a b'')) =
     Some (Inr (ZeroDim
       \<lparr>insertions = 0, deletions = 0, substitutions = 0,
        inserted_words = [], deleted_words = [], substituted_words = [],
        wer = Finite 0, ld = 0, ref_len = 2\<rparr>))
   \<and> wers From_2_3 (Scalar (PyStr ''a b'')) (Scalar (PyStr ''a b'')) = Some (Inl IndexError)
   \<and> wers Upto_2_2 (Scalar (PyStr ''a b'')) (Scalar (PyStr ''a b''))
       = Some (Inr ([], Some (WerScalar (Finite 0))))"
  by code_simp

text \<open>
  C9. When \<open>metrics\<close> raises ValueError or AttributeError, \<open>wers\<close> does not raise: it prints
  the diagnostic of that error and returns \<open>None\<close>.
\<close>

theorem wers_catches_errors:
  assumes "metrics np reference hypothesis = Some (Inl e)"
  shows "wers np reference hypothesis =
     Some (Inr ([case e of
              ValueError \<Rightarrow> ''ValueError: The Reference and Hypothesis input parameters must have the same number of elements.''
            | AttributeError \<Rightarrow> ''AttributeError: All text should be in a string format. Please check your input does not include any Numeric data types.''],
           None))"
  using assms by (cases e) (simp_all add: wers_def)

theorem wers_catches_errors_witness:
  "metrics Upto_2_2 (Coll [''a'', ''b'']) (Coll [''a'', ''b'', ''c'']) = Some (Inl ValueError)
   \<and> wers Upto_2_2 (Coll [''a'', ''b'']) (Coll [''a'', ''b'', ''c'']) =
       Some (Inr ([''ValueError: The Reference and Hypothesis input parameters must have the same number of elements.''],
             None))
   \<and> metrics From_2_3 (Scalar (PyNum 5)) (Scalar (PyStr ''a'')) = Some (Inl AttributeError)
   \<and> wers From_2_3 (Scalar (PyNum 5)) (Scalar (PyStr ''a'')) =
       Some (Inr ([''AttributeError: All text should be in a string format. Please check your input does not include any Numeric data types.''],
             None))"
proof -
  have 1: "metrics Upto_2_2 (Coll [''a'', ''b'']) (Coll [''a'', ''b'', ''c'']) = Some (Inl ValueError)"
    by code_simp
  have 2: "metrics From_2_3 (Scalar (PyNum 5)) (Scalar (PyStr ''a'')) = Some (Inl AttributeError)"
    by code_simp
  show ?thesis
    using wers_catches_errors[OF 1] wers_catches_errors[OF 2] 1 2 by simp
qed

end
